theory Spec2Isabelle
  imports Complex_Main "HOL-Library.Word" "HOL-Library.Log_Nat"
begin

unbundle bit_operations_syntax

section \<open>Machine types, failures and loops\<close>

text \<open>
  The decoder of \<^verbatim>\<open>imageunpacker.go\<close> is embedded function by function. A Go
  \<^verbatim>\<open>byte\<close> is an \<open>8 word\<close>, a \<^verbatim>\<open>uint32\<close> a \<open>32 word\<close>. A Go \<^verbatim>\<open>int\<close> is
  modelled by \<open>int\<close>: on a 64-bit target every \<^verbatim>\<open>int\<close> the decoder computes is
  bounded by \<open>12 * 65535 * 65535 + 4\<close>, far below \<open>2 ^ 63\<close>, so no operation wraps
  (lemma \<open>expectedSize_fits_int64\<close> below).
\<close>

type_synonym byte = "8 word"
type_synonym uint32 = "32 word"

text \<open>
  Three ways in which a Go function does not return a value: it returns a non-nil
  \<^verbatim>\<open>error\<close> (\<^verbatim>\<open>fmt.Errorf\<close>), the runtime panics, or \<^verbatim>\<open>log.Fatal\<close> prints a
  message and exits the process.
\<close>

datatype error =
    CorruptFile                 \<comment> \<open>"File is corrupted, image size header incorrect"\<close>
  | DimensionTooLarge int int   \<comment> \<open>"File is too large, width: %d height: %d"\<close>

datatype panic = IndexOutOfRange | SliceBoundsOutOfRange

datatype fatal =
    TooSmallInput               \<comment> \<open>"File is too small"\<close>
  | Expected4Bytes nat          \<comment> \<open>"Expected 4 bytes, got %d: %q"\<close>
  | FatalError error            \<comment> \<open>\<^verbatim>\<open>log.Fatal(err)\<close> on an error of \<open>Unpack\<close>\<close>
  | IOFailure string            \<comment> \<open>\<^verbatim>\<open>log.Fatal(err)\<close> on an error of the file system\<close>

datatype abort = Returned error | Panicked panic | LogFatal fatal

definition MaxImageDimension :: int where "MaxImageDimension = 8192"
definition headerSize :: nat where "headerSize = 4"
definition floatSize :: nat where "floatSize = 4"
definition elementSize :: int where "elementSize = 12"

text \<open>\<^verbatim>\<open>bytes[i]\<close>: the runtime panics when the index is out of range.\<close>

definition index :: "'a list \<Rightarrow> nat \<Rightarrow> abort + 'a" where
  "index xs i = (if i < length xs then Inr (xs ! i) else Inl (Panicked IndexOutOfRange))"

text \<open>
  \<^verbatim>\<open>bytes[lo:hi]\<close>. Every slice the decoder cuts is cut from a slice whose capacity is
  its length or is cut within the length, so the bound is the length.
\<close>

definition subslice :: "'a list \<Rightarrow> nat \<Rightarrow> nat \<Rightarrow> abort + 'a list" where
  "subslice xs lo hi =
     (if lo \<le> hi \<and> hi \<le> length xs then Inr (take (hi - lo) (drop lo xs))
      else Inl (Panicked SliceBoundsOutOfRange))"

text \<open>
  A counting loop \<^verbatim>\<open>for i := a; i < b; i++ { body }\<close> whose body neither writes
  \<open>i\<close> nor the bound runs the body once for each \<open>i\<close> of \<open>[a..<b]\<close>, in order, and
  stops at the first panic or exit.
\<close>

fun for_each :: "nat list \<Rightarrow> (nat \<Rightarrow> 's \<Rightarrow> abort + 's) \<Rightarrow> 's \<Rightarrow> abort + 's" where
  "for_each [] body s = Inr s"
| "for_each (i # is) body s =
     (case body i s of Inl e \<Rightarrow> Inl e | Inr s' \<Rightarrow> for_each is body s')"

section \<open>Header reader\<close>

text \<open>
  \<^verbatim>\<open>getDimensions\<close>: two loops, each ORing a byte shifted by \<open>8 * i\<close> into the
  named result, which starts at zero.
\<close>

definition getDimensions :: "byte list \<Rightarrow> abort + (int \<times> int)" where
  "getDimensions bytes =
     (case for_each [0..<headerSize div 2]
             (\<lambda>i width. case index bytes i of Inl e \<Rightarrow> Inl e
                | Inr b \<Rightarrow> Inr (width OR push_bit (8 * i) (uint b))) 0 of
        Inl e \<Rightarrow> Inl e
      | Inr width \<Rightarrow>
         (case for_each [headerSize div 2..<headerSize]
                 (\<lambda>i height. case index bytes i of Inl e \<Rightarrow> Inl e
                    | Inr b \<Rightarrow> Inr (height OR push_bit (8 * (i - headerSize div 2)) (uint b))) 0 of
            Inl e \<Rightarrow> Inl e
          | Inr height \<Rightarrow> Inr (width, height)))"

section \<open>Sample decoder\<close>

text \<open>
  \<^verbatim>\<open>uint32From\<close>: \<^verbatim>\<open>log.Fatalln\<close> ends the process when the slice does not hold
  four bytes; after the check the four reads are in range.
\<close>

definition uint32From :: "byte list \<Rightarrow> abort + uint32" where
  "uint32From bytes =
     (if length bytes \<noteq> 4 then Inl (LogFatal (Expected4Bytes (length bytes)))
      else for_each [0..<4]
             (\<lambda>i x. case index bytes i of Inl e \<Rightarrow> Inl e
                | Inr b \<Rightarrow> Inr (x OR push_bit (8 * i) (ucast b))) 0)"

section \<open>Floating-point values\<close>

text \<open>
  The values of IEEE 754 binary32 and binary64, as Go's \<^verbatim>\<open>float32\<close> and
  \<^verbatim>\<open>float64\<close> have them: not-a-number (all payloads identified), the two
  infinities, the negative zero, and the finite numbers as exact rationals, \<open>Num 0\<close>
  being the positive zero. Every binary32 value is a binary64 value, so the widening
  \<^verbatim>\<open>float64(fi)\<close> keeps the value.
\<close>

datatype float64 = NaN | PosInf | NegInf | NegZero | Num rat

type_synonym float32 = float64

definition signbit :: "float64 \<Rightarrow> bool" where
  "signbit x = (case x of NaN \<Rightarrow> False | PosInf \<Rightarrow> False | NegInf \<Rightarrow> True
                 | NegZero \<Rightarrow> True | Num q \<Rightarrow> q < 0)"

definition magnitude :: "float64 \<Rightarrow> rat" where
  "magnitude x = (case x of Num q \<Rightarrow> \<bar>q\<bar> | _ \<Rightarrow> 0)"

definition is_zero :: "float64 \<Rightarrow> bool" where
  "is_zero x = (x = NegZero \<or> x = Num 0)"

definition is_inf :: "float64 \<Rightarrow> bool" where
  "is_inf x = (x = PosInf \<or> x = NegInf)"

definition signed_zero :: "bool \<Rightarrow> float64" where
  "signed_zero neg = (if neg then NegZero else Num 0)"

definition signed_inf :: "bool \<Rightarrow> float64" where
  "signed_inf neg = (if neg then NegInf else PosInf)"

text \<open>\<open>ilog2 a\<close> is \<open>\<lfloor>log 2 a\<rfloor>\<close> for a positive rational \<open>a\<close>.\<close>

definition ilog2 :: "rat \<Rightarrow> int" where
  "ilog2 a =
     (let (p, q) = quotient_of a;
          d = bitlen p - bitlen q
      in if 2 powi d \<le> a then d else d - 1)"

definition round_half_even :: "rat \<Rightarrow> int" where
  "round_half_even x =
     (let n = \<lfloor>x\<rfloor>; r = x - of_int n
      in if r < 1 / 2 then n else if 1 / 2 < r then n + 1
         else if even n then n else n + 1)"

text \<open>
  Rounding of an exact result of magnitude \<open>a\<close> and the given sign to binary64, to
  nearest and ties to even: 53 significant bits, the exponent of the last place never
  below \<open>-1074\<close> (subnormal numbers), and infinity from \<open>2 ^ 1024\<close> on.
\<close>

definition round64 :: "bool \<Rightarrow> rat \<Rightarrow> float64" where
  "round64 neg a =
     (if a = 0 then signed_zero neg
      else let e = max (ilog2 a) (- 1022);
               ulp = 2 powi (e - 52);
               r = of_int (round_half_even (a / ulp)) * ulp
           in if 2 powi 1024 \<le> r then signed_inf neg
              else if r = 0 then signed_zero neg
              else Num (if neg then - r else r))"

text \<open>The product \<^verbatim>\<open>x * y\<close> and the quotient \<^verbatim>\<open>x / y\<close> of two \<^verbatim>\<open>float64\<close>.\<close>

definition fmul :: "float64 \<Rightarrow> float64 \<Rightarrow> float64" where
  "fmul x y =
     (if x = NaN \<or> y = NaN then NaN
      else if (is_inf x \<and> is_zero y) \<or> (is_zero x \<and> is_inf y) then NaN
      else if is_inf x \<or> is_inf y then signed_inf (signbit x \<noteq> signbit y)
      else round64 (signbit x \<noteq> signbit y) (magnitude x * magnitude y))"

definition fdiv :: "float64 \<Rightarrow> float64 \<Rightarrow> float64" where
  "fdiv x y =
     (if x = NaN \<or> y = NaN then NaN
      else if (is_inf x \<and> is_inf y) \<or> (is_zero x \<and> is_zero y) then NaN
      else if is_inf x \<or> is_zero y then signed_inf (signbit x \<noteq> signbit y)
      else if is_inf y then signed_zero (signbit x \<noteq> signbit y)
      else round64 (signbit x \<noteq> signbit y) (magnitude x / magnitude y))"

text \<open>
  The comparisons \<^verbatim>\<open>x < y\<close> and \<^verbatim>\<open>x == y\<close>: false when an operand is NaN; the two
  zeros are equal.
\<close>

definition fless :: "float64 \<Rightarrow> float64 \<Rightarrow> bool" where
  "fless x y =
     (case (x, y) of
        (NaN, _) \<Rightarrow> False
      | (_, NaN) \<Rightarrow> False
      | (_, NegInf) \<Rightarrow> False
      | (PosInf, _) \<Rightarrow> False
      | (NegInf, _) \<Rightarrow> True
      | (_, PosInf) \<Rightarrow> True
      | (a, b) \<Rightarrow> (if signbit a then - magnitude a else magnitude a)
                   < (if signbit b then - magnitude b else magnitude b))"

definition feq :: "float64 \<Rightarrow> float64 \<Rightarrow> bool" where
  "feq x y = (x \<noteq> NaN \<and> y \<noteq> NaN \<and> (x = y \<or> (is_zero x \<and> is_zero y)))"

text \<open>
  \<^verbatim>\<open>math.Min\<close> and \<^verbatim>\<open>math.Max\<close>, with the special cases of their
  documentation in the order of the library's code: an infinity of the absorbing sign
  wins over NaN, NaN wins over numbers, and \<open>-0\<close> is below \<open>+0\<close>.
\<close>

definition Min_float :: "float64 \<Rightarrow> float64 \<Rightarrow> float64" where
  "Min_float x y =
     (if x = NegInf \<or> y = NegInf then NegInf
      else if x = NaN \<or> y = NaN then NaN
      else if is_zero x \<and> feq x y then (if signbit x then x else y)
      else if fless x y then x else y)"

definition Max_float :: "float64 \<Rightarrow> float64 \<Rightarrow> float64" where
  "Max_float x y =
     (if x = PosInf \<or> y = PosInf then PosInf
      else if x = NaN \<or> y = NaN then NaN
      else if is_zero x \<and> feq x y then (if signbit x then y else x)
      else if fless y x then x else y)"

text \<open>
  \<^verbatim>\<open>math.Float32frombits\<close> followed by the widening to \<^verbatim>\<open>float64\<close>: bit 31 is
  the sign, bits 30 to 23 the biased exponent, bits 22 to 0 the fraction.
\<close>

definition Float32frombits :: "uint32 \<Rightarrow> float32" where
  "Float32frombits b =
     (let neg = bit b 31;
          ex = unat (drop_bit 23 b AND 255);
          mant = unat (b AND 8388607)
      in if ex = 255 then (if mant = 0 then signed_inf neg else NaN)
         else if ex = 0 then
           (if mant = 0 then signed_zero neg
            else Num ((if neg then - 1 else 1) * of_nat mant * 2 powi (- 149)))
         else Num ((if neg then - 1 else 1) * of_nat (8388608 + mant) * 2 powi (int ex - 150)))"

definition float64_of_float32 :: "float32 \<Rightarrow> float64" where
  "float64_of_float32 x = x"

text \<open>
  The conversion \<^verbatim>\<open>byte(x)\<close> of a \<^verbatim>\<open>float64\<close> discards the fraction (truncation
  towards zero). For a value that a byte cannot represent the Go specification leaves
  the result to the implementation: that result is the parameter \<open>conv\<close>.
\<close>

definition byte_of_float :: "(float64 \<Rightarrow> byte) \<Rightarrow> float64 \<Rightarrow> byte" where
  "byte_of_float conv x =
     (case x of
        Num q \<Rightarrow> (if - 1 < q \<and> q < 256 then word_of_int (if q < 0 then \<lceil>q\<rceil> else \<lfloor>q\<rfloor>) else conv x)
      | NegZero \<Rightarrow> 0
      | _ \<Rightarrow> conv x)"

text \<open>
  \<^verbatim>\<open>convertToFloat\<close>: \<open>N\<close> slices of \<open>floatSize\<close> bytes, each passed to
  \<open>uint32From\<close>, reinterpreted as a \<^verbatim>\<open>float32\<close> and widened into \<open>f[i]\<close>.
\<close>

definition convertToFloat :: "byte list \<Rightarrow> abort + float64 list" where
  "convertToFloat bytes =
     (let N = length bytes div floatSize
      in for_each [0..<N]
           (\<lambda>i f. case subslice bytes (floatSize * i) (floatSize * (i + 1)) of
                     Inl e \<Rightarrow> Inl e
                   | Inr s \<Rightarrow>
                      (case uint32From s of
                         Inl e \<Rightarrow> Inl e
                       | Inr ui \<Rightarrow> Inr (f[i := float64_of_float32 (Float32frombits ui)])))
           (replicate N (Num 0)))"

section \<open>Gamma corrector and quantizer\<close>

text \<open>
  \<^verbatim>\<open>gammaCorrect\<close> overwrites each sample by \<^verbatim>\<open>math.Pow(f[i], ig)\<close>. The library
  function \<^verbatim>\<open>math.Pow\<close> is the parameter \<open>pow\<close>. The indices of the loop are below
  \<open>len(f)\<close>, so the reads are in range.
\<close>

definition gammaCorrect ::
  "(float64 \<Rightarrow> float64 \<Rightarrow> float64) \<Rightarrow> float64 list \<Rightarrow> float64 \<Rightarrow> float64 list" where
  "gammaCorrect pow f g =
     (let ig = fdiv (Num 1) g
      in fold (\<lambda>i f. f[i := pow (f ! i) ig]) [0..<length f] f)"

text \<open>The constant \<^verbatim>\<open>255.99\<close> as a \<^verbatim>\<open>float64\<close>: the nearest binary64 number.\<close>

definition c255_99 :: float64 where
  "c255_99 = Num (1125855926377513 / 4398046511104)"

definition standardDynamicRange :: "(float64 \<Rightarrow> byte) \<Rightarrow> float64 list \<Rightarrow> byte list" where
  "standardDynamicRange conv f =
     fold (\<lambda>i bytes.
             bytes[i := byte_of_float conv
                          (Max_float (Num 0) (Min_float (Num 255) (fmul (f ! i) c255_99)))])
          [0..<length f] (replicate (length f) 0)"

section \<open>Image assembler\<close>

text \<open>
  The part of Go's \<^verbatim>\<open>image\<close> and \<^verbatim>\<open>image/color\<close> packages that \<open>makeImage\<close>
  uses. \<^verbatim>\<open>image.Rect\<close> orders its corners; \<^verbatim>\<open>image.NewRGBA\<close> allocates four zero
  bytes for each pixel, row after row; \<^verbatim>\<open>Set\<close> ignores a point outside the rectangle
  and otherwise stores the colour, converted by \<^verbatim>\<open>color.RGBAModel\<close>, at the pixel's
  offset; \<^verbatim>\<open>RGBAAt\<close> reads it back. In an image that \<^verbatim>\<open>NewRGBA\<close> allocated, the
  four bytes of a point inside the rectangle are inside the pixel array.
\<close>

record rectangle =
  MinX :: int
  MinY :: int
  MaxX :: int
  MaxY :: int

record image_RGBA =
  Pix :: "byte list"
  Stride :: int
  Rect :: rectangle

datatype color_NRGBA = NRGBA byte byte byte byte

datatype color_RGBA = RGBA byte byte byte byte

definition image_Rect :: "int \<Rightarrow> int \<Rightarrow> int \<Rightarrow> int \<Rightarrow> rectangle" where
  "image_Rect x0 y0 x1 y1 =
     \<lparr>MinX = (if x0 > x1 then x1 else x0), MinY = (if y0 > y1 then y1 else y0),
      MaxX = (if x0 > x1 then x0 else x1), MaxY = (if y0 > y1 then y0 else y1)\<rparr>"

definition Dx :: "rectangle \<Rightarrow> int" where "Dx r = MaxX r - MinX r"
definition Dy :: "rectangle \<Rightarrow> int" where "Dy r = MaxY r - MinY r"

definition NewRGBA :: "rectangle \<Rightarrow> image_RGBA" where
  "NewRGBA r = \<lparr>Pix = replicate (nat (4 * Dx r * Dy r)) 0, Stride = 4 * Dx r, Rect = r\<rparr>"

definition point_In :: "int \<Rightarrow> int \<Rightarrow> rectangle \<Rightarrow> bool" where
  "point_In x y r = (MinX r \<le> x \<and> x < MaxX r \<and> MinY r \<le> y \<and> y < MaxY r)"

definition PixOffset :: "image_RGBA \<Rightarrow> int \<Rightarrow> int \<Rightarrow> int" where
  "PixOffset p x y = (y - MinY (Rect p)) * Stride p + (x - MinX (Rect p)) * 4"

text \<open>
  \<^verbatim>\<open>NRGBA.RGBA()\<close> spreads a channel to 16 bits and multiplies it by alpha, in
  \<^verbatim>\<open>uint32\<close>; the model \<^verbatim>\<open>color.RGBAModel\<close> keeps the high byte of each result.
\<close>

definition premultiply :: "byte \<Rightarrow> byte \<Rightarrow> uint32" where
  "premultiply c a = ((ucast c OR push_bit 8 (ucast c)) * ucast a) div 255"

definition RGBAModel_Convert :: "color_NRGBA \<Rightarrow> color_RGBA" where
  "RGBAModel_Convert col =
     (case col of NRGBA r g b a \<Rightarrow>
        RGBA (ucast (drop_bit 8 (premultiply r a))) (ucast (drop_bit 8 (premultiply g a)))
             (ucast (drop_bit 8 (premultiply b a)))
             (ucast (drop_bit 8 (ucast a OR push_bit 8 (ucast a) :: uint32))))"

definition Set_RGBA :: "image_RGBA \<Rightarrow> int \<Rightarrow> int \<Rightarrow> color_NRGBA \<Rightarrow> image_RGBA" where
  "Set_RGBA p x y col =
     (if \<not> point_In x y (Rect p) then p
      else let i = nat (PixOffset p x y)
           in case RGBAModel_Convert col of RGBA r g b a \<Rightarrow>
                p\<lparr>Pix := (Pix p)[i := r, i + 1 := g, i + 2 := b, i + 3 := a]\<rparr>)"

definition RGBAAt :: "image_RGBA \<Rightarrow> int \<Rightarrow> int \<Rightarrow> color_RGBA" where
  "RGBAAt p x y =
     (if \<not> point_In x y (Rect p) then RGBA 0 0 0 0
      else let i = nat (PixOffset p x y)
           in RGBA (Pix p ! i) (Pix p ! (i + 1)) (Pix p ! (i + 2)) (Pix p ! (i + 3)))"

text \<open>
  \<^verbatim>\<open>makeImage\<close>: the loop state is the image and the read position \<open>i\<close>; each of the
  three reads panics when it is out of range.
\<close>

definition makeImage :: "byte list \<Rightarrow> int \<Rightarrow> int \<Rightarrow> abort + image_RGBA" where
  "makeImage bytes w h =
     (case for_each [0..<nat h]
             (\<lambda>y. for_each [0..<nat w]
                (\<lambda>x (im, i).
                   case index bytes i of Inl e \<Rightarrow> Inl e
                   | Inr r \<Rightarrow>
                   (case index bytes (i + 1) of Inl e \<Rightarrow> Inl e
                    | Inr g \<Rightarrow>
                    (case index bytes (i + 2) of Inl e \<Rightarrow> Inl e
                     | Inr b \<Rightarrow>
                        Inr (Set_RGBA im (int x) (int y) (NRGBA r g b 255), i + 3)))))
             (NewRGBA (image_Rect 0 0 w h), 0) of
        Inl e \<Rightarrow> Inl e
      | Inr (im, i) \<Rightarrow> Inr im)"

section \<open>The decoder\<close>

text \<open>
  \<^verbatim>\<open>Unpack\<close>, with the library's \<^verbatim>\<open>math.Pow\<close> (\<open>pow\<close>) and the platform's conversion
  of an unrepresentable \<^verbatim>\<open>float64\<close> to a byte (\<open>conv\<close>) as parameters.
\<close>

definition Unpack ::
  "(float64 \<Rightarrow> float64 \<Rightarrow> float64) \<Rightarrow> (float64 \<Rightarrow> byte) \<Rightarrow> byte list \<Rightarrow> float64
     \<Rightarrow> abort + image_RGBA" where
  "Unpack pow conv bytes gamma =
     (case getDimensions bytes of
        Inl e \<Rightarrow> Inl e
      | Inr (width, height) \<Rightarrow>
         (let expectedSize = elementSize * width * height + int headerSize
          in if int (length bytes) \<noteq> expectedSize then Inl (Returned CorruptFile)
             else if width > MaxImageDimension \<or> height > MaxImageDimension
               then Inl (Returned (DimensionTooLarge width height))
             else
               (case subslice bytes headerSize (length bytes) of
                  Inl e \<Rightarrow> Inl e
                | Inr payload \<Rightarrow>
                   (case convertToFloat payload of
                      Inl e \<Rightarrow> Inl e
                    | Inr floats \<Rightarrow>
                       (let floats' = (if \<not> feq gamma (Num 1) then gammaCorrect pow floats gamma
                                       else floats);
                            imgData = standardDynamicRange conv floats'
                        in makeImage imgData width height)))))"

section \<open>The command\<close>

text \<open>
  \<^verbatim>\<open>path.Ext\<close>: the suffix from the last dot of the last element of the path, empty
  when that element has no dot.
\<close>

fun Ext_loop :: "string \<Rightarrow> string \<Rightarrow> string" where
  "Ext_loop [] acc = []"
| "Ext_loop (c # cs) acc =
     (if c = CHR ''/'' then [] else if c = CHR ''.'' then c # acc else Ext_loop cs (c # acc))"

definition path_Ext :: "string \<Rightarrow> string" where
  "path_Ext p = Ext_loop (rev p) []"

text \<open>
  The file system as \<open>main\<close> sees it: \<open>getBytes\<close> gives an error or the bytes of the
  file, \<open>saveImage\<close> an error or nothing.
\<close>

record filesystem =
  getBytes :: "string \<Rightarrow> string + byte list"
  saveImage :: "image_RGBA \<Rightarrow> string \<Rightarrow> string option"

datatype exit =
    ExitUsage                   \<comment> \<open>\<^verbatim>\<open>flag.Usage()\<close>, \<^verbatim>\<open>os.Exit(1)\<close>\<close>
  | ExitFatal fatal             \<comment> \<open>\<^verbatim>\<open>log.Fatal\<close>\<close>
  | ExitPanic panic
  | ExitSaved string image_RGBA \<comment> \<open>the image written to the output path\<close>

text \<open>
  \<^verbatim>\<open>main\<close> after \<^verbatim>\<open>flag.Parse()\<close>. The decoder it calls is the parameter
  \<open>unpack\<close> of \<open>main_with\<close>, so that a theorem can say that an outcome is reached
  without the decoder; \<open>main\<close> is the command, calling \<open>Unpack\<close>.
\<close>

definition main_with ::
  "(byte list \<Rightarrow> float64 \<Rightarrow> abort + image_RGBA) \<Rightarrow> filesystem \<Rightarrow> string \<Rightarrow> string \<Rightarrow> float64
     \<Rightarrow> exit" where
  "main_with unpack fs input output gamma =
     (if input = [] \<or> output = [] then ExitUsage
      else if path_Ext output \<noteq> ''.png'' then ExitUsage
      else
        (case getBytes fs input of
           Inl err \<Rightarrow> ExitFatal (IOFailure err)
         | Inr bytes \<Rightarrow>
            (if length bytes < headerSize then ExitFatal TooSmallInput
             else
               (case unpack bytes gamma of
                  Inl (Returned err) \<Rightarrow> ExitFatal (FatalError err)
                | Inl (Panicked p) \<Rightarrow> ExitPanic p
                | Inl (LogFatal f) \<Rightarrow> ExitFatal f
                | Inr im \<Rightarrow>
                   (case saveImage fs im output of
                      Some err \<Rightarrow> ExitFatal (IOFailure err)
                    | None \<Rightarrow> ExitSaved output im)))))"

definition main ::
  "(float64 \<Rightarrow> float64 \<Rightarrow> float64) \<Rightarrow> (float64 \<Rightarrow> byte) \<Rightarrow> filesystem \<Rightarrow> string \<Rightarrow> string
     \<Rightarrow> float64 \<Rightarrow> exit" where
  "main pow conv = main_with (Unpack pow conv)"

section \<open>The quantizer as the specification words it\<close>

text \<open>
  The specification's formula, for comparison with \<open>standardDynamicRange\<close>: the byte
  of a finite scaled sample \<open>q\<close> is \<open>clamp(round_down(q), 0, 255)\<close>.
\<close>

definition clamp_round_down :: "rat \<Rightarrow> int" where
  "clamp_round_down q = max 0 (min 255 \<lfloor>q\<rfloor>)"

section \<open>The invariant of the assembler's loops\<close>

text \<open>
  After \<open>n\<close> pixels, in row-major order, of an image \<open>W\<close> wide and \<open>H\<close> high: the
  rectangle, the stride and the size of the pixel array are those of the allocation,
  the read position is \<open>3 * n\<close>, and the first \<open>n\<close> pixels hold the first \<open>n\<close>
  triples of the buffer, each followed by 255.
\<close>

definition assembled :: "byte list \<Rightarrow> nat \<Rightarrow> nat \<Rightarrow> nat \<Rightarrow> image_RGBA \<times> nat \<Rightarrow> bool" where
  "assembled bytes W H n s =
     (case s of (im, i) \<Rightarrow>
        Rect im = \<lparr>MinX = 0, MinY = 0, MaxX = int W, MaxY = int H\<rparr>
      \<and> Stride im = 4 * int W
      \<and> length (Pix im) = 4 * W * H
      \<and> i = 3 * n
      \<and> (\<forall>k<n. Pix im ! (4 * k) = bytes ! (3 * k)
               \<and> Pix im ! (4 * k + 1) = bytes ! (3 * k + 1)
               \<and> Pix im ! (4 * k + 2) = bytes ! (3 * k + 2)
               \<and> Pix im ! (4 * k + 3) = 255))"

section \<open>Stand-ins for the parameters in closed examples\<close>

text \<open>
  The theorems below hold for every \<open>pow\<close>, every \<open>conv\<close> and every file system. A
  closed example has to name some: \<open>example_pow\<close> returns its base, \<open>example_conv\<close>
  returns zero.
\<close>

definition example_pow :: "float64 \<Rightarrow> float64 \<Rightarrow> float64" where
  "example_pow x y = x"

definition example_conv :: "float64 \<Rightarrow> byte" where
  "example_conv x = 0"

text \<open>A file system in which every file holds the three bytes \<open>01 02 03\<close>.\<close>

definition example_fs :: filesystem where
  "example_fs = \<lparr>getBytes = (\<lambda>name. Inr [1, 2, 3]), saveImage = (\<lambda>im name. None)\<rparr>"

section \<open>The header reader computes little-endian 16-bit numbers\<close>

lemma upt_0_2: "[0..<2] = [0, Suc 0]"
  by (simp add: upt_rec)

lemma upt_2_4: "[2..<4] = [2, 3]"
  by (simp add: upt_rec)

lemma upt_0_4: "[0..<4] = [0, Suc 0, 2, 3]"
  by (simp add: upt_rec)

lemma uint_or_push_bit_8: "uint (a :: byte) OR push_bit 8 k = uint a + 256 * k"
proof -
  have "uint a + push_bit 8 k = uint a OR push_bit 8 k"
    by (rule disjunctive_add) (auto simp add: bit_simps dest: bit_imp_le_length)
  then show ?thesis
    by (simp add: push_bit_eq_mult)
qed

lemma getDimensions_short:
  "length bytes < 4 \<Longrightarrow> getDimensions bytes = Inl (Panicked IndexOutOfRange)"
  by (auto simp add: getDimensions_def headerSize_def upt_0_2 upt_2_4 index_def split: sum.splits)

lemma getDimensions_header:
  "4 \<le> length bytes \<Longrightarrow>
   getDimensions bytes =
     Inr (uint (bytes ! 0) + 256 * uint (bytes ! 1), uint (bytes ! 2) + 256 * uint (bytes ! 3))"
  by (auto simp add: getDimensions_def upt_0_2 upt_2_4 index_def headerSize_def uint_or_push_bit_8)

lemma getDimensions_range:
  assumes "getDimensions bytes = Inr (w, h)"
  shows "0 \<le> w \<and> w < 65536 \<and> 0 \<le> h \<and> h < 65536 \<and> 4 \<le> length bytes"
proof -
  have len: "4 \<le> length bytes"
    using assms getDimensions_short [of bytes] by (cases "length bytes < 4") auto
  have b: "0 \<le> uint x \<and> uint x < 256" for x :: byte
    using uint_bounded [of x] by simp
  from b [of "bytes ! 0"] b [of "bytes ! 1"] b [of "bytes ! 2"] b [of "bytes ! 3"]
  show ?thesis
    using assms len by (auto simp add: getDimensions_header)
qed

text \<open>The expected size, computed in a 64-bit \<^verbatim>\<open>int\<close>, does not wrap.\<close>

lemma expectedSize_fits_int64:
  assumes "getDimensions bytes = Inr (w, h)"
  shows "0 \<le> elementSize * w * h + int headerSize
       \<and> elementSize * w * h + int headerSize < 2 ^ 63"
proof -
  define p where "p = w * h"
  from getDimensions_range [OF assms]
  have w: "0 \<le> w" "w \<le> 65535" and h: "0 \<le> h" "h \<le> 65535"
    by auto
  have "p \<le> 65535 * 65535"
    unfolding p_def using w h by (intro mult_mono) auto
  moreover have "0 \<le> p"
    unfolding p_def using w h by simp
  ultimately have "0 \<le> 12 * p + 4 \<and> 12 * p + 4 < 2 ^ 63"
    by simp
  then show ?thesis
    by (simp add: elementSize_def headerSize_def p_def mult.assoc)
qed

section \<open>Size validation\<close>

text \<open>
  Claim C10. A buffer of fewer than four bytes given to \<open>Unpack\<close> itself makes
  \<open>getDimensions\<close> read out of range: the runtime panics, and \<open>Unpack\<close> returns no
  error value. Nothing in \<open>Unpack\<close> checks the header size.
\<close>

theorem Unpack_short_buffer_panics:
  assumes "length bytes < 4"
  shows "getDimensions bytes = Inl (Panicked IndexOutOfRange)
       \<and> Unpack pow conv bytes gamma = Inl (Panicked IndexOutOfRange)"
  using assms by (simp add: Unpack_def getDimensions_short)

theorem Unpack_short_buffer_panics_witness:
  "length [1, 2, 3 :: byte] < 4
   \<and> Unpack example_pow example_conv [1, 2, 3] (Num 2) = Inl (Panicked IndexOutOfRange)"
  using Unpack_short_buffer_panics [of "[1, 2, 3]" example_pow example_conv "Num 2"] by simp

text \<open>
  Claim C4. A buffer of at least four bytes whose length is not \<open>12 * width * height + 4\<close>,
  width and height being the little-endian numbers of its own header, makes \<open>Unpack\<close>
  return the error \<open>CorruptFile\<close>.
\<close>

theorem Unpack_length_mismatch:
  assumes "4 \<le> length bytes"
    and "int (length bytes) \<noteq>
           12 * (uint (bytes ! 0) + 256 * uint (bytes ! 1))
              * (uint (bytes ! 2) + 256 * uint (bytes ! 3)) + 4"
  shows "Unpack pow conv bytes gamma = Inl (Returned CorruptFile)"
  using assms by (simp add: Unpack_def getDimensions_header elementSize_def headerSize_def)

theorem Unpack_length_mismatch_witness:
  "Unpack example_pow example_conv [2, 0, 1, 0, 7] (Num 2) = Inl (Returned CorruptFile)"
  using Unpack_length_mismatch [of "[2, 0, 1, 0, 7]" example_pow example_conv "Num 2"] by simp

text \<open>
  Claim C1, as stated, fails: the length check comes first in \<open>Unpack\<close>. The four bytes
  \<open>01 20 01 00\<close> declare width 8193 and height 1; the buffer is not 98320 bytes long, and
  the error is \<open>CorruptFile\<close>, not \<open>DimensionTooLarge\<close>.
\<close>

theorem Unpack_too_large_wrong_length_counterexample:
  "getDimensions [1, 32, 1, 0] = Inr (8193, 1)
   \<and> Unpack example_pow example_conv [1, 32, 1, 0] (Num 2) = Inl (Returned CorruptFile)
   \<and> Unpack example_pow example_conv [1, 32, 1, 0] (Num 2)
       \<noteq> Inl (Returned (DimensionTooLarge 8193 1))"
  by (simp add: Unpack_def getDimensions_header elementSize_def headerSize_def)

text \<open>
  Claim C1, amended. A buffer whose header declares a width or a height above 8192 makes
  \<open>Unpack\<close> return an error: \<open>DimensionTooLarge\<close> when the length of the buffer is
  \<open>12 * width * height + 4\<close>, and \<open>CorruptFile\<close> otherwise.
\<close>

theorem Unpack_too_large:
  assumes "getDimensions bytes = Inr (w, h)"
    and "w > 8192 \<or> h > 8192"
  shows "Unpack pow conv bytes gamma =
           Inl (Returned (if int (length bytes) = 12 * w * h + 4 then DimensionTooLarge w h
                          else CorruptFile))"
  using assms by (auto simp add: Unpack_def elementSize_def headerSize_def MaxImageDimension_def)

theorem Unpack_too_large_witness:
  "getDimensions ([1, 32, 1, 0] @ replicate 98316 0) = Inr (8193, 1)
   \<and> Unpack example_pow example_conv ([1, 32, 1, 0] @ replicate 98316 0) (Num 2)
       = Inl (Returned (DimensionTooLarge 8193 1))"
proof -
  have d: "getDimensions ([1, 32, 1, 0] @ replicate 98316 0) = Inr (8193, 1)"
    by (simp add: getDimensions_header)
  show ?thesis
    using Unpack_too_large [OF d, of example_pow example_conv "Num 2"] d by simp
qed

section \<open>The image library stores an opaque colour unchanged\<close>

lemma nat_or_mult_256:
  assumes "v < 256"
  shows "(v :: nat) OR 256 * k = v + 256 * k"
proof -
  have tv: "take_bit 8 v = v"
    using assms by (simp add: take_bit_nat_eq_self)
  have "take_bit 8 v + push_bit 8 k = take_bit 8 v OR push_bit 8 k"
    by (rule disjunctive_add) (auto simp add: bit_simps)
  then show ?thesis
    by (simp add: tv push_bit_eq_mult mult.commute)
qed

lemma unat_byte_less: "unat (c :: byte) < 256"
  using unsigned_less [of c] by simp

lemma unat_spread_byte:
  "unat (ucast (c :: byte) OR push_bit 8 (ucast c) :: uint32) = 257 * unat c"
proof -
  have 1: "unat (ucast c :: uint32) = unat c"
    using unat_byte_less [of c] by (simp add: unsigned_ucast_eq take_bit_nat_eq_self)
  have "unat (push_bit 8 (ucast c :: uint32)) = take_bit 32 (push_bit 8 (unat (ucast c :: uint32)))"
    using unsigned_push_bit_eq [of 8 "ucast c :: uint32", where ?'a = nat] by simp
  then have 2: "unat (push_bit 8 (ucast c :: uint32)) = 256 * unat c"
    using unat_byte_less [of c]
    by (simp only: 1) (simp add: take_bit_nat_eq_self push_bit_eq_mult)
  show ?thesis
    using unat_byte_less [of c]
    by (simp add: unsigned_or_eq 1 2 nat_or_mult_256)
qed

lemma premultiply_opaque: "ucast (drop_bit 8 (premultiply c 255)) = c"
proof -
  have v: "unat c < 256"
    by (rule unat_byte_less)
  have "unat ((ucast c OR push_bit 8 (ucast c)) * 255 :: uint32) = 257 * unat c * 255"
    using v by (simp add: unat_word_ariths unat_spread_byte)
  then have "unat (premultiply c 255) = 257 * unat c"
    by (simp add: premultiply_def unat_div)
  moreover have "unat (drop_bit 8 (premultiply c 255)) = drop_bit 8 (unat (premultiply c 255))"
    by (rule unat_drop_bit_eq)
  ultimately have "unat (drop_bit 8 (premultiply c 255)) = unat c"
    using v by (simp only: drop_bit_eq_div) simp
  then have "unat (ucast (drop_bit 8 (premultiply c 255)) :: byte) = unat c"
    using v by (simp add: unsigned_ucast_eq take_bit_nat_eq_self)
  then show ?thesis
    by (rule unsigned_word_eqI)
qed

lemma RGBAModel_Convert_opaque: "RGBAModel_Convert (NRGBA r g b 255) = RGBA r g b 255"
  by (simp add: RGBAModel_Convert_def premultiply_opaque)

section \<open>Loops\<close>

lemma for_each_upt_invariant:
  assumes "a \<le> b" and "I a s"
    and step: "\<And>i s. a \<le> i \<Longrightarrow> i < b \<Longrightarrow> I i s \<Longrightarrow> \<exists>s'. body i s = Inr s' \<and> I (Suc i) s'"
  shows "\<exists>s'. for_each [a..<b] body s = Inr s' \<and> I b s'"
  using assms
proof (induction "b - a" arbitrary: a s)
  case 0
  then show ?case by simp
next
  case (Suc d)
  then have ab: "a < b" by simp
  from Suc.prems(3) [of a s] ab Suc.prems(2)
  obtain s1 where s1: "body a s = Inr s1" "I (Suc a) s1"
    by auto
  have "\<exists>s'. for_each [Suc a..<b] body s1 = Inr s' \<and> I b s'"
  proof (rule Suc.hyps(1))
    show "d = b - Suc a" using Suc.hyps(2) by simp
    show "Suc a \<le> b" using ab by simp
    show "I (Suc a) s1" by (rule s1)
    show "\<exists>s'. body i s = Inr s' \<and> I (Suc i) s'" if "Suc a \<le> i" "i < b" "I i s" for i s
      using that Suc.prems(3) [of i s] by simp
  qed
  then show ?case
    using ab s1 by (simp add: upt_conv_Cons)
qed

lemma fold_update_in_place:
  "n \<le> length xs \<Longrightarrow>
   fold (\<lambda>i xs. xs[i := g (xs ! i)]) [0..<n] xs = map g (take n xs) @ drop n xs"
proof (induction n)
  case 0
  then show ?case by simp
next
  case (Suc n)
  then have n: "n < length xs" by simp
  have "fold (\<lambda>i xs. xs[i := g (xs ! i)]) [0..<Suc n] xs
      = (map g (take n xs) @ drop n xs)[n := g ((map g (take n xs) @ drop n xs) ! n)]"
    using Suc by simp
  also have "\<dots> = map g (take n xs) @ (drop n xs)[0 := g (xs ! n)]"
    using n by (simp add: list_update_append nth_append)
  also have "\<dots> = map g (take (Suc n) xs) @ drop (Suc n) xs"
    using n by (simp add: take_Suc_conv_app_nth Cons_nth_drop_Suc [symmetric])
  finally show ?case .
qed

lemma fold_update_from:
  "n \<le> length xs \<Longrightarrow> length ys = length xs \<Longrightarrow>
   fold (\<lambda>i ys. ys[i := g (xs ! i)]) [0..<n] ys = map g (take n xs) @ drop n ys"
proof (induction n)
  case 0
  then show ?case by simp
next
  case (Suc n)
  then have n: "n < length xs" "n < length ys" by simp_all
  have "fold (\<lambda>i ys. ys[i := g (xs ! i)]) [0..<Suc n] ys
      = (map g (take n xs) @ drop n ys)[n := g (xs ! n)]"
    using Suc by simp
  also have "\<dots> = map g (take n xs) @ (drop n ys)[0 := g (xs ! n)]"
    using n by (simp add: list_update_append)
  also have "\<dots> = map g (take (Suc n) xs) @ drop (Suc n) ys"
    using n by (simp add: take_Suc_conv_app_nth Cons_nth_drop_Suc [symmetric])
  finally show ?case .
qed

lemma gammaCorrect_map: "gammaCorrect pow f g = map (\<lambda>x. pow x (fdiv (Num 1) g)) f"
  using fold_update_in_place [of "length f" f "\<lambda>x. pow x (fdiv (Num 1) g)"]
  by (simp add: gammaCorrect_def)

lemma standardDynamicRange_map:
  "standardDynamicRange conv f =
     map (\<lambda>x. byte_of_float conv (Max_float (Num 0) (Min_float (Num 255) (fmul x c255_99)))) f"
  using fold_update_from [of "length f" f "replicate (length f) 0"
      "\<lambda>x. byte_of_float conv (Max_float (Num 0) (Min_float (Num 255) (fmul x c255_99)))"]
  by (simp add: standardDynamicRange_def)

section \<open>Sample decoder: every slice has four bytes\<close>

lemma subslice_float:
  assumes "i < length bytes div floatSize"
  shows "subslice bytes (floatSize * i) (floatSize * (i + 1))
           = Inr (take 4 (drop (4 * i) bytes))
       \<and> length (take 4 (drop (4 * i) bytes)) = 4"
proof -
  have "4 * (i + 1) \<le> length bytes"
    using assms by (simp add: floatSize_def less_eq_div_iff_mult_less_eq)
  then show ?thesis
    by (simp add: subslice_def floatSize_def)
qed

lemma uint32From_four:
  "length s = 4 \<Longrightarrow>
   uint32From s = Inr (ucast (s ! 0) OR push_bit 8 (ucast (s ! 1))
                        OR push_bit 16 (ucast (s ! 2)) OR push_bit 24 (ucast (s ! 3)))"
  by (simp add: uint32From_def upt_0_4 index_def or.assoc)

lemma convertToFloat_total:
  "\<exists>f. convertToFloat bytes = Inr f \<and> length f = length bytes div floatSize"
proof -
  define N where "N = length bytes div floatSize"
  define body where "body = (\<lambda>i (f :: float64 list).
      case subslice bytes (floatSize * i) (floatSize * (i + 1)) of
        Inl e \<Rightarrow> Inl e
      | Inr s \<Rightarrow>
         (case uint32From s of
            Inl e \<Rightarrow> Inl e
          | Inr ui \<Rightarrow> Inr (f[i := float64_of_float32 (Float32frombits ui)])))"
  have "\<exists>f. for_each [0..<N] body (replicate N (Num 0)) = Inr f \<and> length f = N"
  proof (rule for_each_upt_invariant [where I = "\<lambda>i f. length f = N"])
    show "0 \<le> N" by simp
    show "length (replicate N (Num 0 :: float64)) = N" by simp
    show "\<exists>f'. body i f = Inr f' \<and> length f' = N" if "i < N" "length f = N" for i f
      using that subslice_float [of i bytes]
      by (simp add: body_def N_def uint32From_four)
  qed
  then show ?thesis
    by (simp add: convertToFloat_def N_def body_def Let_def)
qed

text \<open>
  Claim C9. Every slice that \<open>convertToFloat\<close> cuts for \<open>uint32From\<close> is cut within
  the buffer and holds exactly four bytes, so \<open>uint32From\<close> returns a word on it; the
  loop runs through and \<open>convertToFloat\<close> returns its samples. The exit of
  \<open>uint32From\<close> on a wrong length is never taken from here.
\<close>

theorem convertToFloat_slices_have_four_bytes:
  "(\<forall>i < length bytes div floatSize.
      \<exists>s ui. subslice bytes (floatSize * i) (floatSize * (i + 1)) = Inr s \<and> length s = 4
             \<and> uint32From s = Inr ui)
   \<and> (\<exists>f. convertToFloat bytes = Inr f \<and> length f = length bytes div floatSize)"
  using subslice_float [of _ bytes] convertToFloat_total [of bytes]
  by (auto simp add: uint32From_four)

theorem convertToFloat_slices_have_four_bytes_witness:
  "length [0, 0, 128, 63, 0, 0, 0, 63 :: byte] div floatSize = 2
   \<and> subslice [0, 0, 128, 63, 0, 0, 0, 63 :: byte] (floatSize * 0) (floatSize * (0 + 1)) = Inr [0, 0, 128, 63]
   \<and> subslice [0, 0, 128, 63, 0, 0, 0, 63 :: byte] (floatSize * 1) (floatSize * (1 + 1)) = Inr [0, 0, 0, 63]
   \<and> uint32From [0, 0, 128, 63] = Inr 0x3F800000
   \<and> uint32From [0, 0, 0, 63] = Inr 0x3F000000
   \<and> (\<exists>f. convertToFloat [0, 0, 128, 63, 0, 0, 0, 63] = Inr f \<and> length f = 2)"
  using convertToFloat_slices_have_four_bytes [of "[0, 0, 128, 63, 0, 0, 0, 63]"]
  by (simp add: floatSize_def subslice_def uint32From_four)

section \<open>Image assembler: the loops\<close>

lemma pixel_index_bound:
  assumes "x < W" "y < H"
  shows "y * W + x < W * (H :: nat)"
proof -
  have "y * W + x < y * W + W" using assms by simp
  also have "\<dots> = Suc y * W" by simp
  also have "\<dots> \<le> H * W" using assms by (intro mult_le_mono1) simp
  finally show ?thesis by (simp add: mult.commute)
qed

lemma assembled_start:
  "assembled bytes W H 0 (NewRGBA (image_Rect 0 0 (int W) (int H)), 0)"
  by (simp add: assembled_def NewRGBA_def image_Rect_def Dx_def Dy_def nat_mult_distrib)

lemma Set_RGBA_assembled:
  assumes inv: "assembled bytes W H (y * W + x) (im, i)"
    and x: "x < W" and y: "y < H"
  shows "assembled bytes W H (Suc (y * W + x))
           (Set_RGBA im (int x) (int y) (NRGBA (bytes ! i) (bytes ! (i + 1)) (bytes ! (i + 2)) 255), i + 3)"
proof -
  define n where "n = y * W + x"
  have n: "n < W * H"
    unfolding n_def using x y by (rule pixel_index_bound)
  have inside: "point_In (int x) (int y) (Rect im)"
    using inv x y by (simp add: assembled_def point_In_def)
  have "PixOffset im (int x) (int y) = int (4 * n)"
    using inv by (simp add: assembled_def PixOffset_def n_def algebra_simps)
  then have off: "nat (PixOffset im (int x) (int y)) = 4 * n"
    by simp
  have len: "length (Pix im) = 4 * W * H" and i: "i = 3 * n"
    using inv by (simp_all add: assembled_def n_def)
  have old: "Pix im ! (4 * k) = bytes ! (3 * k) \<and> Pix im ! (4 * k + 1) = bytes ! (3 * k + 1)
           \<and> Pix im ! (4 * k + 2) = bytes ! (3 * k + 2) \<and> Pix im ! (4 * k + 3) = 255"
    if "k < n" for k
    using inv that by (simp add: assembled_def n_def)
  have upd: "Set_RGBA im (int x) (int y) (NRGBA (bytes ! i) (bytes ! (i + 1)) (bytes ! (i + 2)) 255)
      = im\<lparr>Pix := (Pix im)[4 * n := bytes ! i, 4 * n + 1 := bytes ! (i + 1),
                               4 * n + 2 := bytes ! (i + 2), 4 * n + 3 := 255]\<rparr>"
    using inside by (simp add: Set_RGBA_def off RGBAModel_Convert_opaque Let_def)
  have "4 * n + 3 < length (Pix im)"
    using n len by simp
  then show ?thesis
    unfolding upd n_def [symmetric]
    using inv old i
    by (auto simp add: assembled_def n_def [symmetric] nth_list_update less_Suc_eq)
qed

lemma makeImage_row:
  assumes len: "length bytes = 3 * W * H" and y: "y < H"
    and inv: "assembled bytes W H (y * W) s"
  shows "\<exists>s'. for_each [0..<W]
                (\<lambda>x (im, i).
                   case index bytes i of Inl e \<Rightarrow> Inl e
                   | Inr r \<Rightarrow>
                   (case index bytes (i + 1) of Inl e \<Rightarrow> Inl e
                    | Inr g \<Rightarrow>
                    (case index bytes (i + 2) of Inl e \<Rightarrow> Inl e
                     | Inr b \<Rightarrow>
                        Inr (Set_RGBA im (int x) (int y) (NRGBA r g b 255), i + 3)))) s = Inr s'
            \<and> assembled bytes W H (Suc y * W) s'"
proof -
  have "\<exists>s'. for_each [0..<W]
                (\<lambda>x (im, i).
                   case index bytes i of Inl e \<Rightarrow> Inl e
                   | Inr r \<Rightarrow>
                   (case index bytes (i + 1) of Inl e \<Rightarrow> Inl e
                    | Inr g \<Rightarrow>
                    (case index bytes (i + 2) of Inl e \<Rightarrow> Inl e
                     | Inr b \<Rightarrow>
                        Inr (Set_RGBA im (int x) (int y) (NRGBA r g b 255), i + 3)))) s = Inr s'
            \<and> assembled bytes W H (y * W + W) s'"
  proof (rule for_each_upt_invariant [where I = "\<lambda>x s. assembled bytes W H (y * W + x) s"])
    show "0 \<le> W" by simp
    show "assembled bytes W H (y * W + 0) s" using inv by simp
  next
    fix x s
    assume x: "x < W" and a: "assembled bytes W H (y * W + x) s"
    obtain im i where s: "s = (im, i)" by (cases s)
    have i: "i = 3 * (y * W + x)"
      using a by (simp add: s assembled_def)
    have "y * W + x < W * H"
      using x y by (rule pixel_index_bound)
    then have rd: "i + 2 < length bytes"
      using len i by simp
    show "\<exists>s'. (case s of (im, i) \<Rightarrow>
                   case index bytes i of Inl e \<Rightarrow> Inl e
                   | Inr r \<Rightarrow>
                   (case index bytes (i + 1) of Inl e \<Rightarrow> Inl e
                    | Inr g \<Rightarrow>
                    (case index bytes (i + 2) of Inl e \<Rightarrow> Inl e
                     | Inr b \<Rightarrow>
                        Inr (Set_RGBA im (int x) (int y) (NRGBA r g b 255), i + 3)))) = Inr s'
            \<and> assembled bytes W H (y * W + Suc x) s'"
      using Set_RGBA_assembled [OF a [unfolded s] x y] rd by (simp add: s index_def)
  qed
  then show ?thesis by (simp add: add.commute)
qed

lemma makeImage_assembled:
  assumes len: "length bytes = 3 * W * H"
  shows "\<exists>im. makeImage bytes (int W) (int H) = Inr im \<and> assembled bytes W H (H * W) (im, 3 * (H * W))"
proof -
  have "\<exists>s'. for_each [0..<H]
             (\<lambda>y. for_each [0..<W]
                (\<lambda>x (im, i).
                   case index bytes i of Inl e \<Rightarrow> Inl e
                   | Inr r \<Rightarrow>
                   (case index bytes (i + 1) of Inl e \<Rightarrow> Inl e
                    | Inr g \<Rightarrow>
                    (case index bytes (i + 2) of Inl e \<Rightarrow> Inl e
                     | Inr b \<Rightarrow>
                        Inr (Set_RGBA im (int x) (int y) (NRGBA r g b 255), i + 3)))))
             (NewRGBA (image_Rect 0 0 (int W) (int H)), 0) = Inr s'
          \<and> assembled bytes W H (H * W) s'"
  proof (rule for_each_upt_invariant [where I = "\<lambda>y s. assembled bytes W H (y * W) s"])
    show "0 \<le> H" by simp
    show "assembled bytes W H (0 * W) (NewRGBA (image_Rect 0 0 (int W) (int H)), 0)"
      using assembled_start [of bytes W H] by simp
  next
    fix y s
    assume "y < H" "assembled bytes W H (y * W) s"
    then show "\<exists>s'. for_each [0..<W]
                (\<lambda>x (im, i).
                   case index bytes i of Inl e \<Rightarrow> Inl e
                   | Inr r \<Rightarrow>
                   (case index bytes (i + 1) of Inl e \<Rightarrow> Inl e
                    | Inr g \<Rightarrow>
                    (case index bytes (i + 2) of Inl e \<Rightarrow> Inl e
                     | Inr b \<Rightarrow>
                        Inr (Set_RGBA im (int x) (int y) (NRGBA r g b 255), i + 3)))) s = Inr s'
            \<and> assembled bytes W H (Suc y * W) s'"
      by (rule makeImage_row [OF len])
  qed
  then obtain s' where s': "for_each [0..<H]
             (\<lambda>y. for_each [0..<W]
                (\<lambda>x (im, i).
                   case index bytes i of Inl e \<Rightarrow> Inl e
                   | Inr r \<Rightarrow>
                   (case index bytes (i + 1) of Inl e \<Rightarrow> Inl e
                    | Inr g \<Rightarrow>
                    (case index bytes (i + 2) of Inl e \<Rightarrow> Inl e
                     | Inr b \<Rightarrow>
                        Inr (Set_RGBA im (int x) (int y) (NRGBA r g b 255), i + 3)))))
             (NewRGBA (image_Rect 0 0 (int W) (int H)), 0) = Inr s'"
     and a: "assembled bytes W H (H * W) s'"
    by blast
  obtain im i where s: "s' = (im, i)" by (cases s')
  have "i = 3 * (H * W)" using a by (simp add: s assembled_def)
  then show ?thesis
    using s' a by (simp add: makeImage_def s)
qed

section \<open>Image assembler: row-major pixels, opaque alpha\<close>

lemma assembled_pixel:
  assumes a: "assembled bytes W H (H * W) (im, i)" and x: "x < W" and y: "y < H"
  shows "RGBAAt im (int x) (int y)
       = RGBA (bytes ! (3 * (y * W + x))) (bytes ! (3 * (y * W + x) + 1))
              (bytes ! (3 * (y * W + x) + 2)) 255"
proof -
  define n where "n = y * W + x"
  have n: "n < H * W"
    unfolding n_def using pixel_index_bound [OF x y] by (simp add: mult.commute)
  have inside: "point_In (int x) (int y) (Rect im)"
    using a x y by (simp add: assembled_def point_In_def)
  have "PixOffset im (int x) (int y) = int (4 * n)"
    using a by (simp add: assembled_def PixOffset_def n_def algebra_simps)
  then have off: "nat (PixOffset im (int x) (int y)) = 4 * n"
    by simp
  have "Pix im ! (4 * n) = bytes ! (3 * n) \<and> Pix im ! (4 * n + 1) = bytes ! (3 * n + 1)
      \<and> Pix im ! (4 * n + 2) = bytes ! (3 * n + 2) \<and> Pix im ! (4 * n + 3) = 255"
    using a n by (simp add: assembled_def)
  then show ?thesis
    using inside by (simp add: RGBAAt_def off Let_def n_def)
qed

text \<open>
  Claim C7. On a pixel buffer of \<open>3 * width * height\<close> bytes the assembler returns an
  image of that width and height whose pixel at \<open>(x, y)\<close> has the red, green and blue of
  the bytes \<open>3 * (y * width + x)\<close>, \<open>+ 1\<close> and \<open>+ 2\<close> of the buffer, and alpha 255; this is
  so for every pixel of the image, and every fourth byte of the pixel array is 255.
\<close>

theorem makeImage_row_major:
  assumes "length bytes = 3 * W * H"
  shows "\<exists>im. makeImage bytes (int W) (int H) = Inr im
            \<and> Rect im = \<lparr>MinX = 0, MinY = 0, MaxX = int W, MaxY = int H\<rparr>
            \<and> length (Pix im) = 4 * W * H
            \<and> (\<forall>x<W. \<forall>y<H.
                  RGBAAt im (int x) (int y)
                    = RGBA (bytes ! (3 * (y * W + x))) (bytes ! (3 * (y * W + x) + 1))
                           (bytes ! (3 * (y * W + x) + 2)) 255)
            \<and> (\<forall>k<W * H. Pix im ! (4 * k + 3) = 255)"
proof -
  from makeImage_assembled [OF assms]
  obtain im where im: "makeImage bytes (int W) (int H) = Inr im"
    and a: "assembled bytes W H (H * W) (im, 3 * (H * W))"
    by blast
  have "Rect im = \<lparr>MinX = 0, MinY = 0, MaxX = int W, MaxY = int H\<rparr>"
    and "length (Pix im) = 4 * W * H"
    and "\<forall>k<W * H. Pix im ! (4 * k + 3) = 255"
    using a by (simp_all add: assembled_def mult.commute)
  moreover have "\<forall>x<W. \<forall>y<H.
                  RGBAAt im (int x) (int y)
                    = RGBA (bytes ! (3 * (y * W + x))) (bytes ! (3 * (y * W + x) + 1))
                           (bytes ! (3 * (y * W + x) + 2)) 255"
    using assembled_pixel [OF a] by blast
  ultimately show ?thesis
    using im by blast
qed

theorem makeImage_row_major_witness:
  "\<exists>im. makeImage [10, 20, 30, 40, 50, 60] 2 1 = Inr im
      \<and> Rect im = \<lparr>MinX = 0, MinY = 0, MaxX = 2, MaxY = 1\<rparr>
      \<and> length (Pix im) = 8
      \<and> RGBAAt im 0 0 = RGBA 10 20 30 255
      \<and> RGBAAt im 1 0 = RGBA 40 50 60 255"
proof -
  from makeImage_row_major [of "[10, 20, 30, 40, 50, 60]" 2 1]
  obtain im where im: "makeImage [10, 20, 30, 40, 50, 60] (int 2) (int 1) = Inr im"
    and r: "Rect im = \<lparr>MinX = 0, MinY = 0, MaxX = int 2, MaxY = int 1\<rparr>"
    and l: "length (Pix im) = 4 * 2 * 1"
    and p: "\<forall>x<2. \<forall>y<1. RGBAAt im (int x) (int y)
                    = RGBA ([10, 20, 30, 40, 50, 60] ! (3 * (y * 2 + x)))
                           ([10, 20, 30, 40, 50, 60] ! (3 * (y * 2 + x) + 1))
                           ([10, 20, 30, 40, 50, 60] ! (3 * (y * 2 + x) + 2)) 255"
    by auto
  from p have "RGBAAt im (int 0) (int 0) = RGBA 10 20 30 255"
    by (drule_tac x = 0 in spec) simp
  moreover from p have "RGBAAt im (int 1) (int 0) = RGBA 40 50 60 255"
    by (drule_tac x = 1 in spec) simp
  ultimately show ?thesis
    using im r l by simp
qed

text \<open>The same image, computed.\<close>

lemma makeImage_example:
  "makeImage [10, 20, 30, 40, 50, 60] 2 1
     = Inr \<lparr>Pix = [10, 20, 30, 255, 40, 50, 60, 255], Stride = 8,
            Rect = \<lparr>MinX = 0, MinY = 0, MaxX = 2, MaxY = 1\<rparr>\<rparr>"
  by code_simp

section \<open>The decoder on valid buffers\<close>

lemma Unpack_valid_buffer:
  assumes len: "length bytes = 12 * W * H + 4"
    and w: "uint (bytes ! 0) + 256 * uint (bytes ! 1) = int W"
    and h: "uint (bytes ! 2) + 256 * uint (bytes ! 3) = int H"
    and bound: "W \<le> 8192" "H \<le> 8192"
  shows "\<exists>f. convertToFloat (drop 4 bytes) = Inr f \<and> length f = 3 * W * H
           \<and> Unpack pow conv bytes gamma
               = makeImage (standardDynamicRange conv
                    (if \<not> feq gamma (Num 1) then gammaCorrect pow f gamma else f)) (int W) (int H)"
proof -
  have dims: "getDimensions bytes = Inr (int W, int H)"
    using len w h by (simp add: getDimensions_header)
  have payload: "subslice bytes headerSize (length bytes) = Inr (drop 4 bytes)"
    using len by (simp add: subslice_def headerSize_def)
  from convertToFloat_total [of "drop 4 bytes"]
  obtain f where f: "convertToFloat (drop 4 bytes) = Inr f"
    and lf: "length f = length (drop 4 bytes) div floatSize"
    by blast
  have "length (drop 4 bytes) = 4 * (3 * W * H)"
    using len by simp
  then have lf': "length f = 3 * W * H"
    using lf by (simp add: floatSize_def)
  have "Unpack pow conv bytes gamma
               = makeImage (standardDynamicRange conv
                    (if \<not> feq gamma (Num 1) then gammaCorrect pow f gamma else f)) (int W) (int H)"
  proof -
    have sz: "int (length bytes) = elementSize * int W * int H + int headerSize"
      using len by (simp add: elementSize_def headerSize_def)
    have ok: "\<not> (int W > MaxImageDimension \<or> int H > MaxImageDimension)"
      using bound by (simp add: MaxImageDimension_def)
    show ?thesis
      by (simp add: Unpack_def dims sz ok payload f Let_def)
  qed
  then show ?thesis
    using f lf' by blast
qed

text \<open>
  Claim C3. For a width and a height from 1 to 8192, a buffer of exactly
  \<open>12 * width * height + 4\<close> bytes whose first four bytes are the width and the height,
  little-endian, is decoded without error, whatever the gamma, into an image of that width
  and that height, with four bytes for each of its \<open>width * height\<close> pixels.
\<close>

theorem Unpack_exact_size:
  assumes "1 \<le> W" "W \<le> 8192" "1 \<le> H" "H \<le> 8192"
    and "length bytes = 12 * W * H + 4"
    and "uint (bytes ! 0) + 256 * uint (bytes ! 1) = int W"
    and "uint (bytes ! 2) + 256 * uint (bytes ! 3) = int H"
  shows "\<exists>im. Unpack pow conv bytes gamma = Inr im
            \<and> Rect im = \<lparr>MinX = 0, MinY = 0, MaxX = int W, MaxY = int H\<rparr>
            \<and> length (Pix im) = 4 * W * H"
proof -
  from Unpack_valid_buffer [OF assms(5,6,7,2,4), of pow conv gamma]
  obtain f where lf: "length f = 3 * W * H"
    and u: "Unpack pow conv bytes gamma
               = makeImage (standardDynamicRange conv
                    (if \<not> feq gamma (Num 1) then gammaCorrect pow f gamma else f)) (int W) (int H)"
    by blast
  have "length (standardDynamicRange conv
          (if \<not> feq gamma (Num 1) then gammaCorrect pow f gamma else f)) = 3 * W * H"
    using lf by (simp add: standardDynamicRange_map gammaCorrect_map)
  from makeImage_assembled [OF this] show ?thesis
    unfolding u by (auto simp add: assembled_def mult.commute)
qed

theorem Unpack_exact_size_witness:
  "\<exists>im. Unpack example_pow example_conv
           [1, 0, 1, 0, 0, 0, 128, 63, 0, 0, 0, 0, 0, 0, 0, 63] (Num 2) = Inr im
      \<and> Rect im = \<lparr>MinX = 0, MinY = 0, MaxX = 1, MaxY = 1\<rparr>
      \<and> length (Pix im) = 4"
  using Unpack_exact_size [of 1 1 "[1, 0, 1, 0, 0, 0, 128, 63, 0, 0, 0, 0, 0, 0, 0, 63]"
      example_pow example_conv "Num 2"]
  by simp

text \<open>
  Claim C2, as stated, fails: nothing in \<open>Unpack\<close> rejects a zero dimension. The four
  bytes \<open>00 00 00 00\<close> declare width 0 and height 0, their length is \<open>12 * 0 * 0 + 4\<close>,
  and \<open>Unpack\<close> returns an empty image and no error.
\<close>

theorem Unpack_zero_dimension_counterexample:
  "getDimensions [0, 0, 0, 0] = Inr (0, 0)
   \<and> Unpack example_pow example_conv [0, 0, 0, 0] (Num 2)
       = Inr \<lparr>Pix = [], Stride = 0, Rect = \<lparr>MinX = 0, MinY = 0, MaxX = 0, MaxY = 0\<rparr>\<rparr>"
  by (simp add: getDimensions_header Unpack_def elementSize_def headerSize_def
      MaxImageDimension_def subslice_def convertToFloat_def floatSize_def
      standardDynamicRange_map gammaCorrect_map makeImage_def NewRGBA_def image_Rect_def
      Dx_def Dy_def)

text \<open>
  What success of \<open>Unpack\<close> says of the buffer, and the buffers with a zero dimension that
  \<open>Unpack\<close> accepts: the other checks, of the length and of the upper bound, still apply
  to them.
\<close>

lemma Unpack_Inr_dimensions:
  assumes "Unpack pow conv bytes gamma = Inr im"
  shows "\<exists>w h. getDimensions bytes = Inr (w, h) \<and> 4 \<le> length bytes
              \<and> 0 \<le> w \<and> w \<le> 8192 \<and> 0 \<le> h \<and> h \<le> 8192
              \<and> int (length bytes) = 12 * w * h + 4"
proof (cases "getDimensions bytes")
  case (Inl e)
  then show ?thesis
    using assms by (simp add: Unpack_def)
next
  case (Inr d)
  obtain w h where d: "d = (w, h)" by (cases d)
  from getDimensions_range [OF Inr [unfolded d]]
  have r: "0 \<le> w" "0 \<le> h" "4 \<le> length bytes" by simp_all
  have "int (length bytes) = 12 * w * h + 4 \<and> w \<le> 8192 \<and> h \<le> 8192"
    using assms
    by (simp add: Unpack_def Inr d elementSize_def headerSize_def MaxImageDimension_def Let_def
        split: if_splits)
  then show ?thesis
    using r Inr d by simp
qed

lemma Unpack_accepts:
  assumes dims: "getDimensions bytes = Inr (w, h)"
    and len: "int (length bytes) = 12 * w * h + 4"
    and bound: "w \<le> 8192" "h \<le> 8192"
  shows "\<exists>im. Unpack pow conv bytes gamma = Inr im
            \<and> Rect im = \<lparr>MinX = 0, MinY = 0, MaxX = w, MaxY = h\<rparr>
            \<and> length (Pix im) = nat (4 * w * h)"
proof -
  from getDimensions_range [OF dims]
  have r: "0 \<le> w" "0 \<le> h" "4 \<le> length bytes" by simp_all
  define W where "W = nat w"
  define H where "H = nat h"
  have wh: "w = int W" "h = int H"
    using r by (simp_all add: W_def H_def)
  have hd: "uint (bytes ! 0) + 256 * uint (bytes ! 1) = int W"
    "uint (bytes ! 2) + 256 * uint (bytes ! 3) = int H"
    using dims r by (simp_all add: getDimensions_header wh)
  have "int (length bytes) = int (12 * W * H + 4)"
    using len by (simp add: wh)
  then have l: "length bytes = 12 * W * H + 4"
    by (simp only: of_nat_eq_iff)
  have b: "W \<le> 8192" "H \<le> 8192"
    using bound by (simp_all add: W_def H_def)
  from Unpack_valid_buffer [OF l hd b, of pow conv gamma]
  obtain f where lf: "length f = 3 * W * H"
    and u: "Unpack pow conv bytes gamma
               = makeImage (standardDynamicRange conv
                    (if \<not> feq gamma (Num 1) then gammaCorrect pow f gamma else f)) (int W) (int H)"
    by blast
  have "length (standardDynamicRange conv
          (if \<not> feq gamma (Num 1) then gammaCorrect pow f gamma else f)) = 3 * W * H"
    using lf by (simp add: standardDynamicRange_map gammaCorrect_map)
  from makeImage_assembled [OF this] show ?thesis
    unfolding u by (auto simp add: assembled_def wh mult.commute nat_mult_distrib)
qed

text \<open>
  Claim C2, amended. When \<open>Unpack\<close> returns an image, the buffer has at least four bytes,
  the width and the height of its header are from 0 to 8192, and its length is
  \<open>12 * width * height + 4\<close>. A zero dimension is not rejected: a buffer of four bytes
  whose header declares a width or a height of 0, the other dimension being at most 8192,
  is decoded without error into an image of that width and height, with no pixel.
\<close>

theorem Unpack_success_dimensions:
  "(Unpack pow conv bytes gamma = Inr im \<longrightarrow>
      (\<exists>w h. getDimensions bytes = Inr (w, h) \<and> 4 \<le> length bytes
             \<and> 0 \<le> w \<and> w \<le> 8192 \<and> 0 \<le> h \<and> h \<le> 8192
             \<and> int (length bytes) = 12 * w * h + 4))
   \<and> (length bytes0 = 4 \<and> getDimensions bytes0 = Inr (w0, h0) \<and> (w0 = 0 \<or> h0 = 0)
        \<and> w0 \<le> 8192 \<and> h0 \<le> 8192 \<longrightarrow>
      (\<exists>im0. Unpack pow conv bytes0 gamma = Inr im0
             \<and> Rect im0 = \<lparr>MinX = 0, MinY = 0, MaxX = w0, MaxY = h0\<rparr>
             \<and> Pix im0 = []))"
proof (intro conjI impI)
  assume "Unpack pow conv bytes gamma = Inr im"
  then show "\<exists>w h. getDimensions bytes = Inr (w, h) \<and> 4 \<le> length bytes
             \<and> 0 \<le> w \<and> w \<le> 8192 \<and> 0 \<le> h \<and> h \<le> 8192
             \<and> int (length bytes) = 12 * w * h + 4"
    by (rule Unpack_Inr_dimensions)
next
  assume a: "length bytes0 = 4 \<and> getDimensions bytes0 = Inr (w0, h0) \<and> (w0 = 0 \<or> h0 = 0)
        \<and> w0 \<le> 8192 \<and> h0 \<le> 8192"
  then have z: "w0 * h0 = 0" by auto
  have "int (length bytes0) = 12 * w0 * h0 + 4"
    using a z by (simp add: mult.assoc)
  from Unpack_accepts [OF _ this, of pow conv gamma] a z
  show "\<exists>im0. Unpack pow conv bytes0 gamma = Inr im0
             \<and> Rect im0 = \<lparr>MinX = 0, MinY = 0, MaxX = w0, MaxY = h0\<rparr>
             \<and> Pix im0 = []"
    by (auto simp add: mult.assoc)
qed

text \<open>
  The theorem at a buffer of one pixel, which \<open>Unpack\<close> accepts, and at the four bytes
  \<open>00 00 05 00\<close>, which declare width 0 and height 5.
\<close>

theorem Unpack_success_dimensions_witness:
  "(\<exists>im. Unpack example_pow example_conv
            [1, 0, 1, 0, 0, 0, 128, 63, 0, 0, 0, 0, 0, 0, 0, 63] (Num 2) = Inr im)
   \<and> getDimensions [1, 0, 1, 0, 0, 0, 128, 63, 0, 0, 0, 0, 0, 0, 0, 63] = Inr (1, 1)
   \<and> int (length [1, 0, 1, 0, 0, 0, 128, 63, 0, 0, 0, 0, 0, 0, 0, 63 :: byte]) = 12 * 1 * 1 + 4
   \<and> getDimensions [0, 0, 5, 0] = Inr (0, 5)
   \<and> (\<exists>im0. Unpack example_pow example_conv [0, 0, 5, 0] (Num 2) = Inr im0
            \<and> Rect im0 = \<lparr>MinX = 0, MinY = 0, MaxX = 0, MaxY = 5\<rparr>
            \<and> Pix im0 = [])"
proof -
  let ?b = "[1, 0, 1, 0, 0, 0, 128, 63, 0, 0, 0, 0, 0, 0, 0, 63] :: byte list"
  have d1: "getDimensions ?b = Inr (1, 1)"
    by (simp add: getDimensions_header)
  have d0: "getDimensions [0, 0, 5, 0] = Inr (0, 5)"
    by (simp add: getDimensions_header)
  from Unpack_accepts [OF d1, of example_pow example_conv "Num 2"]
  obtain im where im: "Unpack example_pow example_conv ?b (Num 2) = Inr im"
    by auto
  note t = Unpack_success_dimensions [of example_pow example_conv ?b "Num 2" im "[0, 0, 5, 0]" 0 5]
  from t im have "\<exists>w h. getDimensions ?b = Inr (w, h) \<and> 4 \<le> length ?b
             \<and> 0 \<le> w \<and> w \<le> 8192 \<and> 0 \<le> h \<and> h \<le> 8192
             \<and> int (length ?b) = 12 * w * h + 4"
    by blast
  moreover from t d0 have "\<exists>im0. Unpack example_pow example_conv [0, 0, 5, 0] (Num 2) = Inr im0
            \<and> Rect im0 = \<lparr>MinX = 0, MinY = 0, MaxX = 0, MaxY = 5\<rparr>
            \<and> Pix im0 = []"
    by simp
  ultimately show ?thesis
    using im d1 d0 by auto
qed

text \<open>
  A zero dimension does not lift the upper bound on the other one: the four bytes
  \<open>00 00 01 20\<close> declare width 0 and height 8193 and are rejected.
\<close>

lemma Unpack_zero_by_too_large:
  "Unpack pow conv [0, 0, 1, 32] gamma = Inl (Returned (DimensionTooLarge 0 8193))"
  by (simp add: Unpack_def getDimensions_header elementSize_def headerSize_def
      MaxImageDimension_def)

section \<open>Gamma identity\<close>

lemma feq_one: "feq gamma (Num 1) \<longleftrightarrow> gamma = Num 1"
  by (auto simp add: feq_def is_zero_def)

text \<open>
  Claim C6. With gamma equal to 1.0 the decoder skips the gamma corrector: the image is
  assembled from the quantized samples as \<open>convertToFloat\<close> returned them. The result
  does not depend on \<^verbatim>\<open>math.Pow\<close>, and it is the result, for any gamma, of a decoder
  whose power function returns its base unchanged.
\<close>

theorem Unpack_gamma_one:
  "Unpack pow conv bytes (Num 1) =
     (case getDimensions bytes of
        Inl e \<Rightarrow> Inl e
      | Inr (width, height) \<Rightarrow>
          if int (length bytes) \<noteq> elementSize * width * height + int headerSize
            then Inl (Returned CorruptFile)
          else if width > MaxImageDimension \<or> height > MaxImageDimension
            then Inl (Returned (DimensionTooLarge width height))
          else
            (case subslice bytes headerSize (length bytes) of
               Inl e \<Rightarrow> Inl e
             | Inr payload \<Rightarrow>
                (case convertToFloat payload of
                   Inl e \<Rightarrow> Inl e
                 | Inr floats \<Rightarrow> makeImage (standardDynamicRange conv floats) width height)))
   \<and> Unpack pow conv bytes (Num 1) = Unpack pow' conv bytes (Num 1)
   \<and> Unpack (\<lambda>f ig. f) conv bytes gamma = Unpack pow conv bytes (Num 1)"
  by (simp add: Unpack_def feq_one Let_def gammaCorrect_map split: sum.splits prod.splits)

section \<open>Quantizer\<close>

text \<open>The constant is the rounding of the decimal \<open>255.99\<close>.\<close>

lemma c255_99_nearest: "round64 False (25599 / 100) = c255_99"
  unfolding c255_99_def by code_simp

text \<open>
  Clamping and then truncating, as the code does, is truncating and then clamping; an
  infinite product is clamped to the nearer bound; a NaN product stays NaN through
  \<^verbatim>\<open>math.Min\<close> and \<^verbatim>\<open>math.Max\<close>, and its byte is the platform's.
\<close>

lemma quantize_sample:
  "byte_of_float conv (Max_float (Num 0) (Min_float (Num 255) p)) =
     (case p of
        Num q \<Rightarrow> word_of_int (clamp_round_down q)
      | NegZero \<Rightarrow> 0
      | PosInf \<Rightarrow> 255
      | NegInf \<Rightarrow> 0
      | NaN \<Rightarrow> conv NaN)"
proof (cases p)
  case (Num q)
  consider "q < 0" | "q = 0" | "0 < q" "q \<le> 255" | "255 < q"
    by linarith
  then show ?thesis
  proof cases
    case 1
    then have "\<lfloor>q\<rfloor> < 0" by (simp add: floor_less_iff)
    with 1 show ?thesis
      by (simp add: Num Min_float_def Max_float_def fless_def feq_def is_zero_def signbit_def
          magnitude_def byte_of_float_def clamp_round_down_def)
  next
    case 2
    then show ?thesis
      by (simp add: Num Min_float_def Max_float_def fless_def feq_def is_zero_def signbit_def
          magnitude_def byte_of_float_def clamp_round_down_def)
  next
    case 3
    then have "0 \<le> \<lfloor>q\<rfloor>" "\<lfloor>q\<rfloor> \<le> 255" by (simp_all add: floor_le_iff) 
    with 3 show ?thesis
      by (simp add: Num Min_float_def Max_float_def fless_def feq_def is_zero_def signbit_def
          magnitude_def byte_of_float_def clamp_round_down_def)
  next
    case 4
    then have "255 \<le> \<lfloor>q\<rfloor>" by (simp add: le_floor_iff)
    with 4 show ?thesis
      by (simp add: Num Min_float_def Max_float_def fless_def feq_def is_zero_def signbit_def
          magnitude_def byte_of_float_def clamp_round_down_def)
  qed
qed (simp_all add: Min_float_def Max_float_def fless_def feq_def is_zero_def signbit_def
          magnitude_def byte_of_float_def)

lemma scaled_one: "fmul (Num 1) c255_99 = Num (1125855926377513 / 4398046511104)"
  unfolding c255_99_def by code_simp

lemma scaled_zero: "fmul (Num 0) c255_99 = Num 0"
  unfolding c255_99_def by code_simp

lemma scaled_minus_half: "fmul (Num (- (1 / 2))) c255_99 = Num (- (1125855926377513 / 8796093022208))"
  unfolding c255_99_def by code_simp

lemma scaled_two: "fmul (Num 2) c255_99 = Num (1125855926377513 / 2199023255552)"
  unfolding c255_99_def by code_simp

text \<open>
  Claim C5. For every sample \<open>f\<close> the quantizer's byte is
  \<open>clamp(round_down(f * 255.99), 0, 255)\<close>, the product being the \<^verbatim>\<open>float64\<close> product
  with the \<^verbatim>\<open>float64\<close> constant: so it is for every finite product, an infinite product
  gives the bound of its sign, and where the product is NaN, for which the formula names
  no byte, the byte is the one the platform's conversion gives. The samples 1.0, 0.0,
  -0.5 and 2.0 give the bytes 255, 0, 0 and 255.
\<close>

theorem standardDynamicRange_quantizes:
  "standardDynamicRange conv f =
     map (\<lambda>x. case fmul x c255_99 of
                 Num q \<Rightarrow> word_of_int (clamp_round_down q)
               | NegZero \<Rightarrow> 0
               | PosInf \<Rightarrow> 255
               | NegInf \<Rightarrow> 0
               | NaN \<Rightarrow> conv NaN) f
   \<and> standardDynamicRange conv [Num 1] = [255]
   \<and> standardDynamicRange conv [Num 0] = [0]
   \<and> standardDynamicRange conv [Num (- (1 / 2))] = [0]
   \<and> standardDynamicRange conv [Num 2] = [255]"
proof -
  have 1: "clamp_round_down (1125855926377513 / 4398046511104) = 255"
    by (simp add: clamp_round_down_def)
  have 2: "clamp_round_down (- (1125855926377513 / 8796093022208)) = 0"
    by (simp add: clamp_round_down_def)
  have 3: "clamp_round_down (1125855926377513 / 2199023255552) = 255"
    by (simp add: clamp_round_down_def)
  have 4: "clamp_round_down 0 = 0"
    by (simp add: clamp_round_down_def)
  show ?thesis
    by (simp add: standardDynamicRange_map quantize_sample scaled_one scaled_zero
        scaled_minus_half scaled_two 1 2 3 4)
qed

section \<open>The command checks the length before it decodes\<close>

text \<open>
  Claim C8. When the flags are in order and the input file holds fewer than four bytes,
  the command ends with the fatal message of \<open>TooSmallInput\<close>. It does so whatever the
  decoder is: the length is checked before the decoder is called, and \<open>Unpack\<close> is not
  called.
\<close>

theorem main_too_small_input:
  assumes "input \<noteq> []" "output \<noteq> []" "path_Ext output = ''.png''"
    and "getBytes fs input = Inr bytes"
    and "length bytes < 4"
  shows "main_with unpack fs input output gamma = ExitFatal TooSmallInput
       \<and> main pow conv fs input output gamma = ExitFatal TooSmallInput"
  using assms by (simp add: main_def main_with_def headerSize_def)

theorem main_too_small_input_witness:
  "path_Ext ''out.png'' = ''.png''
   \<and> getBytes example_fs ''in.raw'' = Inr [1, 2, 3]
   \<and> main example_pow example_conv example_fs ''in.raw'' ''out.png'' (Num 2) = ExitFatal TooSmallInput"
proof -
  have e: "path_Ext ''out.png'' = ''.png''"
    by (simp add: path_Ext_def)
  have g: "getBytes example_fs ''in.raw'' = Inr [1, 2, 3]"
    by (simp add: example_fs_def)
  from main_too_small_input [OF _ _ e g, of "Unpack example_pow example_conv" "Num 2" example_pow example_conv]
  show ?thesis
    using e g by simp
qed

section \<open>Sample decoder: bit patterns\<close>

text \<open>The decoding of a bit pattern, from its three fields; and some patterns decoded.\<close>

lemma Float32frombits_parts:
  assumes "bit b 31 = neg" "unat (drop_bit 23 b AND 255) = ex" "unat (b AND 8388607) = mant"
  shows "Float32frombits b =
      (if ex = 255 then (if mant = 0 then signed_inf neg else NaN)
         else if ex = 0 then
           (if mant = 0 then signed_zero neg
            else Num ((if neg then - 1 else 1) * of_nat mant * 2 powi (- 149)))
         else Num ((if neg then - 1 else 1) * of_nat (8388608 + mant) * 2 powi (int ex - 150)))"
  unfolding Float32frombits_def Let_def assms ..

lemma Float32frombits_one: "Float32frombits 0x3F800000 = Num 1"
  by (subst Float32frombits_parts [where neg = False and ex = 127 and mant = 0]) (simp_all add: power_int_def power_one_over)

lemma Float32frombits_half: "Float32frombits 0x3F000000 = Num (1 / 2)"
  by (subst Float32frombits_parts [where neg = False and ex = 126 and mant = 0]) (simp_all add: power_int_def power_one_over)

lemma Float32frombits_minus_half: "Float32frombits 0xBF000000 = Num (- (1 / 2))"
  by (subst Float32frombits_parts [where neg = True and ex = 126 and mant = 0]) (simp_all add: power_int_def power_one_over)

lemma Float32frombits_nan: "Float32frombits 0x7FC00000 = NaN"
  by (subst Float32frombits_parts [where neg = False and ex = 255 and mant = 4194304]) (simp_all add: power_int_def power_one_over)

lemma Float32frombits_neg_inf: "Float32frombits 0xFF800000 = NegInf"
  by (subst Float32frombits_parts [where neg = True and ex = 255 and mant = 0]) (simp_all add: signed_inf_def)

lemma Float32frombits_neg_zero: "Float32frombits 0x80000000 = NegZero"
  by (subst Float32frombits_parts [where neg = True and ex = 0 and mant = 0]) (simp_all add: signed_zero_def)

lemma Float32frombits_zero: "Float32frombits 0 = Num 0"
  by (subst Float32frombits_parts [where neg = False and ex = 0 and mant = 0]) (simp_all add: signed_zero_def)

text \<open>
  The decoder as a function: sample \<open>i\<close> is the \<^verbatim>\<open>float32\<close> whose bits are the bytes
  \<open>4 * i\<close> to \<open>4 * i + 3\<close>, the least significant first.
\<close>

lemma convertToFloat_map:
  "convertToFloat bytes =
     Inr (map (\<lambda>i. float64_of_float32 (Float32frombits
                  (ucast (bytes ! (4 * i)) OR push_bit 8 (ucast (bytes ! (4 * i + 1)))
                   OR push_bit 16 (ucast (bytes ! (4 * i + 2)))
                   OR push_bit 24 (ucast (bytes ! (4 * i + 3))))))
            [0..<length bytes div floatSize])"
proof -
  define N where "N = length bytes div floatSize"
  define dec where "dec = (\<lambda>i. float64_of_float32 (Float32frombits
                  (ucast (bytes ! (4 * i)) OR push_bit 8 (ucast (bytes ! (4 * i + 1)))
                   OR push_bit 16 (ucast (bytes ! (4 * i + 2)))
                   OR push_bit 24 (ucast (bytes ! (4 * i + 3))))))"
  define body where "body = (\<lambda>i (f :: float64 list).
      case subslice bytes (floatSize * i) (floatSize * (i + 1)) of
        Inl e \<Rightarrow> Inl e
      | Inr s \<Rightarrow>
         (case uint32From s of
            Inl e \<Rightarrow> Inl e
          | Inr ui \<Rightarrow> Inr (f[i := float64_of_float32 (Float32frombits ui)])))"
  have step: "body i f = Inr (f[i := dec i])" if "i < N" for i f
  proof -
    have b: "4 * i + 4 \<le> length bytes"
      using that by (simp add: N_def floatSize_def less_eq_div_iff_mult_less_eq)
    then have "take 4 (drop (4 * i) bytes) ! j = bytes ! (4 * i + j)" if "j < 4" for j
      using that by simp
    from this [of 0] this [of 1] this [of 2] this [of 3] show ?thesis
      using subslice_float [of i bytes] that
      by (simp add: body_def N_def uint32From_four dec_def)
  qed
  have "\<exists>f. for_each [0..<N] body (replicate N (Num 0)) = Inr f
           \<and> (length f = N \<and> (\<forall>j<N. f ! j = dec j))"
  proof (rule for_each_upt_invariant [where I = "\<lambda>i f. length f = N \<and> (\<forall>j<i. f ! j = dec j)"])
    show "0 \<le> N" by simp
    show "length (replicate N (Num 0 :: float64)) = N \<and> (\<forall>j<0. replicate N (Num 0) ! j = dec j)"
      by simp
    show "\<exists>f'. body i f = Inr f' \<and> (length f' = N \<and> (\<forall>j<Suc i. f' ! j = dec j))"
      if "i < N" "length f = N \<and> (\<forall>j<i. f ! j = dec j)" for i f
      using that step [of i f] by (auto simp add: nth_list_update less_Suc_eq)
  qed
  then obtain f where f: "for_each [0..<N] body (replicate N (Num 0)) = Inr f"
    and l: "length f = N" and v: "\<forall>j<N. f ! j = dec j"
    by blast
  have "f = map dec [0..<N]"
    using l v by (intro nth_equalityI) simp_all
  then show ?thesis
    using f by (simp add: convertToFloat_def N_def body_def dec_def Let_def)
qed

section \<open>A buffer decoded\<close>

text \<open>
  The scenario of the specification with gamma 1.0: a header for width 2 and height 1 and
  twice the samples 1.0, 0.0 and 0.5. The image has the two pixels \<open>(255, 0, 127, 255)\<close>.
\<close>

lemma convertToFloat_example:
  "convertToFloat [0, 0, 128, 63, 0, 0, 0, 0, 0, 0, 0, 63, 0, 0, 128, 63, 0, 0, 0, 0, 0, 0, 0, 63]
     = Inr [Num 1, Num 0, Num (1 / 2), Num 1, Num 0, Num (1 / 2)]"
  by (simp add: convertToFloat_map floatSize_def upt_rec float64_of_float32_def
      Float32frombits_one Float32frombits_zero Float32frombits_half)

lemma scaled_half: "fmul (Num (1 / 2)) c255_99 = Num (1125855926377513 / 8796093022208)"
  unfolding c255_99_def by code_simp

lemma standardDynamicRange_example:
  "standardDynamicRange conv [Num 1, Num 0, Num (1 / 2), Num 1, Num 0, Num (1 / 2)]
     = [255, 0, 127, 255, 0, 127]"
proof -
  have 1: "clamp_round_down (1125855926377513 / 4398046511104) = 255"
    by (simp add: clamp_round_down_def)
  have "\<lfloor>1125855926377513 / 8796093022208 :: rat\<rfloor> = 127"
    by (rule floor_unique) simp_all
  then have 2: "clamp_round_down (1125855926377513 / 8796093022208) = 127"
    by (simp add: clamp_round_down_def)
  have 3: "clamp_round_down 0 = 0"
    by (simp add: clamp_round_down_def)
  show ?thesis
    by (simp add: standardDynamicRange_map quantize_sample scaled_one scaled_zero scaled_half
        1 2 3)
qed

lemma Unpack_example:
  "Unpack pow conv
     [2, 0, 1, 0,
      0, 0, 128, 63, 0, 0, 0, 0, 0, 0, 0, 63, 0, 0, 128, 63, 0, 0, 0, 0, 0, 0, 0, 63] (Num 1)
   = Inr \<lparr>Pix = [255, 0, 127, 255, 255, 0, 127, 255], Stride = 8,
          Rect = \<lparr>MinX = 0, MinY = 0, MaxX = 2, MaxY = 1\<rparr>\<rparr>"
proof -
  have m: "makeImage [255, 0, 127, 255, 0, 127] 2 1
     = Inr \<lparr>Pix = [255, 0, 127, 255, 255, 0, 127, 255], Stride = 8,
            Rect = \<lparr>MinX = 0, MinY = 0, MaxX = 2, MaxY = 1\<rparr>\<rparr>"
    by code_simp
  from Unpack_valid_buffer [of "[2, 0, 1, 0,
      0, 0, 128, 63, 0, 0, 0, 0, 0, 0, 0, 63, 0, 0, 128, 63, 0, 0, 0, 0, 0, 0, 0, 63]" 2 1 pow conv "Num 1"]
  show ?thesis
    by (simp add: convertToFloat_example standardDynamicRange_example m feq_one)
qed

section \<open>The rounding of the floating-point model\<close>

text \<open>\<open>ilog2\<close> is the binary exponent: \<open>2 ^ ilog2 a \<le> a < 2 ^ (ilog2 a + 1)\<close>.\<close>

lemma bitlen_rat_bounds:
  assumes "0 < (x :: int)"
  shows "(2 :: rat) powi (bitlen x - 1) \<le> of_int x \<and> of_int x < (2 :: rat) powi bitlen x"
proof -
  from bitlen_bounds [OF assms]
  have lo: "2 ^ nat (bitlen x - 1) \<le> x" and hi: "x < 2 ^ nat (bitlen x)"
    by simp_all
  have pos: "1 \<le> bitlen x"
    using assms by (simp add: bitlen_def floorlog_def)
  have "(of_int (2 ^ nat (bitlen x - 1)) :: rat) \<le> of_int x"
    using lo by (simp only: of_int_le_iff)
  moreover have "(of_int x :: rat) < of_int (2 ^ nat (bitlen x))"
    using hi by (simp only: of_int_less_iff)
  ultimately show ?thesis
    using pos by (simp add: power_int_def)
qed

lemma ilog2_bounds:
  assumes "0 < a"
  shows "2 powi ilog2 a \<le> a \<and> a < 2 powi (ilog2 a + 1)"
proof -
  obtain p q where pq: "quotient_of a = (p, q)"
    by (cases "quotient_of a")
  have q: "0 < q"
    using pq by (rule quotient_of_denom_pos)
  have a: "a = of_int p / of_int q"
    using pq by (rule quotient_of_div)
  have p: "0 < p"
    using assms q by (simp add: a zero_less_divide_iff)
  define d where "d = bitlen p - bitlen q"
  have qr: "(0 :: rat) < of_int q" using q by simp
  from bitlen_rat_bounds [OF p] bitlen_rat_bounds [OF q]
  have bp: "2 powi (bitlen p - 1) \<le> (of_int p :: rat)" "(of_int p :: rat) < 2 powi bitlen p"
    and bq: "2 powi (bitlen q - 1) \<le> (of_int q :: rat)" "(of_int q :: rat) < 2 powi bitlen q"
    by simp_all
  have up: "a < 2 powi (d + 1)"
  proof -
    have "of_int p < (2 :: rat) powi bitlen p" by (rule bp)
    also have "\<dots> = 2 powi (d + 1) * 2 powi (bitlen q - 1)"
      by (simp add: d_def flip: power_int_add)
    also have "\<dots> \<le> 2 powi (d + 1) * of_int q"
      using bq(1) by (intro mult_left_mono) simp_all
    finally show ?thesis
      using qr by (simp add: a pos_divide_less_eq)
  qed
  have low: "2 powi (d - 1) < a"
  proof -
    have "2 powi (d - 1) * of_int q < (2 :: rat) powi (d - 1) * 2 powi bitlen q"
      using bq(2) by (intro mult_strict_left_mono) simp_all
    also have "\<dots> = 2 powi (bitlen p - 1)"
      by (simp add: d_def flip: power_int_add)
    also have "\<dots> \<le> of_int p" by (rule bp)
    finally show ?thesis
      using qr by (simp add: a pos_less_divide_eq)
  qed
  have il: "ilog2 a = (if 2 powi d \<le> a then d else d - 1)"
    by (simp add: ilog2_def pq d_def)
  show ?thesis
    using up low by (auto simp add: il)
qed

text \<open>
  A finite result of \<open>round64\<close> is a multiple of the unit in the last place and is
  within half a unit of the exact magnitude.
\<close>

lemma round_half_even_nearest: "\<bar>of_int (round_half_even x) - x\<bar> \<le> 1 / 2"
proof -
  have "of_int \<lfloor>x\<rfloor> \<le> x" "x < of_int \<lfloor>x\<rfloor> + 1"
    by linarith+
  then show ?thesis
    by (auto simp add: round_half_even_def Let_def abs_le_iff)
qed

lemma round64_error:
  assumes "0 < a" and "round64 neg a = Num r"
  shows "\<bar>\<bar>r\<bar> - a\<bar> \<le> 2 powi (max (ilog2 a) (- 1022) - 53)"
proof -
  define e where "e = max (ilog2 a) (- 1022)"
  define ulp :: rat where "ulp = 2 powi (e - 52)"
  define m where "m = round_half_even (a / ulp)"
  have ulp: "0 < ulp" by (simp add: ulp_def)
  have r: "\<bar>r\<bar> = of_int m * ulp"
  proof -
    have "0 \<le> a / ulp" using assms ulp by simp
    then have "0 \<le> \<lfloor>a / ulp\<rfloor>" by simp
    then have "0 \<le> m"
      by (auto simp add: m_def round_half_even_def Let_def)
    then have "0 \<le> of_int m * ulp" using ulp by simp
    moreover have "r = (if neg then - (of_int m * ulp) else of_int m * ulp)"
      using assms
      by (auto simp add: round64_def Let_def e_def ulp_def m_def signed_zero_def signed_inf_def
          split: if_splits)
    ultimately show ?thesis by auto
  qed
  have "\<bar>of_int m - a / ulp\<bar> \<le> 1 / 2"
    unfolding m_def by (rule round_half_even_nearest)
  then have "\<bar>of_int m - a / ulp\<bar> * ulp \<le> 1 / 2 * ulp"
    using ulp by (intro mult_right_mono) simp_all
  moreover have "\<bar>of_int m - a / ulp\<bar> * ulp = \<bar>of_int m * ulp - a\<bar>"
  proof -
    have "\<bar>of_int m - a / ulp\<bar> * ulp = \<bar>of_int m - a / ulp\<bar> * \<bar>ulp\<bar>"
      using ulp by simp
    also have "\<dots> = \<bar>(of_int m - a / ulp) * ulp\<bar>"
      by (simp only: abs_mult)
    also have "(of_int m - a / ulp) * ulp = of_int m * ulp - a"
      using ulp by (simp add: left_diff_distrib)
    finally show ?thesis .
  qed
  moreover have "1 / 2 * ulp = 2 powi (e - 53)"
  proof -
    have "(2 :: rat) powi (e - 53 + 1) = 2 powi (e - 53) * 2 powi 1"
      by (rule power_int_add) simp
    then have "(2 :: rat) powi (e - 52) = 2 powi (e - 53) * 2"
      by simp
    then show ?thesis by (simp add: ulp_def)
  qed
  ultimately show ?thesis
    by (simp add: r e_def)
qed

end
